theory Spec2Isabelle
  imports Main
begin

section \<open>Session coordination server\<close>

text \<open>
  The server keeps one process-wide JavaScript \<^verbatim>\<open>Map\<close> from session id to session, and each
  session keeps a \<^verbatim>\<open>Map\<close> from socket id to user. A JavaScript \<^verbatim>\<open>Map\<close> iterates in insertion
  order, \<^verbatim>\<open>set\<close> on a present key keeps the key's position, and \<^verbatim>\<open>delete\<close> removes the entry:
  it is modelled as an association list with these three operations.
\<close>

subsection \<open>JavaScript Map\<close>

fun map_get :: "('k \<times> 'a) list \<Rightarrow> 'k \<Rightarrow> 'a option" where
  "map_get [] k = None"
| "map_get ((k', v) # m) k = (if k' = k then Some v else map_get m k)"

fun map_has :: "('k \<times> 'a) list \<Rightarrow> 'k \<Rightarrow> bool" where
  "map_has [] k = False"
| "map_has ((k', v) # m) k = (if k' = k then True else map_has m k)"

fun map_set :: "('k \<times> 'a) list \<Rightarrow> 'k \<Rightarrow> 'a \<Rightarrow> ('k \<times> 'a) list" where
  "map_set [] k v = [(k, v)]"
| "map_set ((k', v') # m) k v = (if k' = k then (k, v) # m else (k', v') # map_set m k v)"

fun map_delete :: "('k \<times> 'a) list \<Rightarrow> 'k \<Rightarrow> ('k \<times> 'a) list" where
  "map_delete [] k = []"
| "map_delete ((k', v) # m) k = (if k' = k then map_delete m k else (k', v) # map_delete m k)"

subsection \<open>Data model\<close>

text \<open>
  Socket ids, session ids and names are strings. The scene blob is a JavaScript object whose
  fields are opaque to the server: a map from field name to a value of an arbitrary type
  \<open>'v\<close>. \<^verbatim>\<open>null\<close> is \<open>None\<close>.
\<close>

type_synonym 'v blob = "string \<rightharpoonup> 'v"

record user =
  id' :: string
  name :: string

record 'v session =
  users :: "(string \<times> user) list"
  controllerId :: "string option"
  sceneState :: "'v blob option"
  createdAt :: nat

type_synonym 'v registry = "(string \<times> 'v session) list"

text \<open>The messages a socket can send, one constructor per handler of the connection.\<close>

datatype 'v msg =
    SessionJoin string string
  | SceneUpdate string "'v blob"
  | PhotosUpdate string 'v
  | ControlRequest string
  | ControlOffer string string
  | ControlAccept string
  | ControlDecline string string
  | ViewerJoin string
  | WebrtcOffer string 'v
  | WebrtcAnswer string 'v
  | WebrtcIce string 'v
  | Disconnect

text \<open>The events the server emits, with the payload fields in the order of the source.\<close>

datatype 'v event =
    SessionJoined string string "user list" "string option" "'v blob option"
  | SessionUserJoined user
  | SessionUserLeft string
  | SceneStateEv "'v blob"
  | PhotosUpdateEv 'v
  | ControlRequested string string
  | ControlOfferEv string string
  | ControlChanged string
  | SceneSync "'v blob option"
  | ControlDeclined string string
  | ViewerJoinEv string
  | WebrtcOfferEv string 'v
  | WebrtcAnswerEv string 'v
  | WebrtcIceEv string 'v

text \<open>
  The three ways the source addresses an emission: \<^verbatim>\<open>socket.emit\<close> reaches the sending socket
  only, \<^verbatim>\<open>socket.to(room).emit\<close> reaches the room except the sending socket, and
  \<^verbatim>\<open>io.to(room).emit\<close> reaches the whole room. A room named by a socket id is that socket's
  own room.
\<close>

datatype target = ToSender | ToRoomExceptSender string | ToRoom string

datatype 'v emission = Emit target "'v event"

subsection \<open>JavaScript truthiness\<close>

text \<open>
  \<^verbatim>\<open>!x\<close> and \<^verbatim>\<open>x || d\<close> on a value that is a string or \<^verbatim>\<open>null\<close>/\<^verbatim>\<open>undefined\<close>: \<^verbatim>\<open>null\<close> and the
  empty string are falsy.
\<close>

fun falsy :: "string option \<Rightarrow> bool" where
  "falsy None = True"
| "falsy (Some s) = (s = [])"

definition or_else :: "string option \<Rightarrow> string \<Rightarrow> string" where
  "or_else x d = (if falsy x then d else the x)"

definition or_null :: "string option \<Rightarrow> string option" where
  "or_null x = (if falsy x then None else x)"

subsection \<open>Helpers of the server\<close>

definition new_session :: "nat \<Rightarrow> 'v session" where
  "new_session now = \<lparr>users = [], controllerId = None, sceneState = None, createdAt = now\<rparr>"

text \<open>
  \<^verbatim>\<open>getSession\<close> returns the session and leaves a fresh one in the registry when the id is
  new; \<open>now\<close> is the value of \<^verbatim>\<open>Date.now()\<close>.
\<close>

definition getSession :: "nat \<Rightarrow> 'v registry \<Rightarrow> string \<Rightarrow> 'v registry \<times> 'v session" where
  "getSession now sessions sessionId =
     (let sessions' = (if \<not> map_has sessions sessionId
                       then map_set sessions sessionId (new_session now) else sessions)
      in (sessions', case map_get sessions' sessionId of
                       Some s \<Rightarrow> s | None \<Rightarrow> new_session now))"

definition getUsersPayload :: "'v session \<Rightarrow> user list" where
  "getUsersPayload session = map (\<lambda>u. \<lparr>id' = id' u, name = name u\<rparr>) (map snd (users session))"

text \<open>\<^verbatim>\<open>session.users.get(socket.id)?.name || d\<close>\<close>

definition user_name_or :: "'v session \<Rightarrow> string \<Rightarrow> string \<Rightarrow> string" where
  "user_name_or session socketId d = or_else (map_option name (map_get (users session) socketId)) d"

text \<open>\<^verbatim>\<open>{ ...(session.sceneState || {}), ...delta }\<close>: an object (even an empty one) is truthy.\<close>

definition blob_or_empty :: "'v blob option \<Rightarrow> 'v blob" where
  "blob_or_empty b = (case b of None \<Rightarrow> Map.empty | Some x \<Rightarrow> x)"

definition spread :: "'v blob \<Rightarrow> 'v blob \<Rightarrow> 'v blob" where
  "spread a b = (\<lambda>k. case b k of Some v \<Rightarrow> Some v | None \<Rightarrow> a k)"

subsection \<open>The handlers\<close>

text \<open>
  Each handler takes the sending socket's id and the registry, and returns the registry
  after the handler together with the emissions in the order the source makes them. A
  session object is mutated in place in the source, so the changed session is stored back
  under its id, which keeps the id's position in the registry. \<^verbatim>\<open>socket.join(sessionId)\<close> puts
  the socket into the room of the session; the members of a room are kept by socket.io and
  are not part of the registry.
\<close>

definition on_session_join ::
  "nat \<Rightarrow> string \<Rightarrow> string \<Rightarrow> string \<Rightarrow> 'v registry \<Rightarrow> 'v registry \<times> 'v emission list" where
  "on_session_join now socketId sessionId nm sessions =
     (let (sessions1, session) = getSession now sessions sessionId;
          session1 = session\<lparr>users := map_set (users session) socketId \<lparr>id' = socketId, name = nm\<rparr>\<rparr>;
          session2 = (if falsy (controllerId session1)
                      then session1\<lparr>controllerId := Some socketId\<rparr> else session1)
      in (map_set sessions1 sessionId session2,
          [Emit ToSender (SessionJoined sessionId socketId (getUsersPayload session2)
                            (controllerId session2) (sceneState session2)),
           Emit (ToRoomExceptSender sessionId) (SessionUserJoined \<lparr>id' = socketId, name = nm\<rparr>)]))"

definition on_scene_update ::
  "string \<Rightarrow> string \<Rightarrow> 'v blob \<Rightarrow> 'v registry \<Rightarrow> 'v registry \<times> 'v emission list" where
  "on_scene_update socketId sessionId delta sessions =
     (case map_get sessions sessionId of
        None \<Rightarrow> (sessions, [])
      | Some session \<Rightarrow>
          if controllerId session \<noteq> Some socketId then (sessions, [])
          else (map_set sessions sessionId
                  (session\<lparr>sceneState := Some (spread (blob_or_empty (sceneState session)) delta)\<rparr>),
                [Emit (ToRoomExceptSender sessionId) (SceneStateEv delta)]))"

definition on_photos_update ::
  "string \<Rightarrow> string \<Rightarrow> 'v \<Rightarrow> 'v registry \<Rightarrow> 'v registry \<times> 'v emission list" where
  "on_photos_update socketId sessionId photos sessions =
     (case map_get sessions sessionId of
        None \<Rightarrow> (sessions, [])
      | Some session \<Rightarrow>
          if controllerId session \<noteq> Some socketId then (sessions, [])
          else (map_set sessions sessionId
                  (session\<lparr>sceneState :=
                     Some (spread (blob_or_empty (sceneState session)) [''photos'' \<mapsto> photos])\<rparr>),
                [Emit (ToRoomExceptSender sessionId) (PhotosUpdateEv photos)]))"

definition on_control_request ::
  "string \<Rightarrow> string \<Rightarrow> 'v registry \<Rightarrow> 'v registry \<times> 'v emission list" where
  "on_control_request socketId sessionId sessions =
     (case map_get sessions sessionId of
        None \<Rightarrow> (sessions, [])
      | Some session \<Rightarrow>
          if falsy (controllerId session) then (sessions, [])
          else (sessions,
                [Emit (ToRoom (the (controllerId session)))
                   (ControlRequested socketId (user_name_or session socketId ''Guest''))]))"

definition on_control_offer ::
  "string \<Rightarrow> string \<Rightarrow> string \<Rightarrow> 'v registry \<Rightarrow> 'v registry \<times> 'v emission list" where
  "on_control_offer socketId sessionId targetId sessions =
     (case map_get sessions sessionId of
        None \<Rightarrow> (sessions, [])
      | Some session \<Rightarrow>
          if controllerId session \<noteq> Some socketId then (sessions, [])
          else (sessions,
                [Emit (ToRoom targetId)
                   (ControlOfferEv socketId (user_name_or session socketId ''Host''))]))"

definition on_control_accept ::
  "string \<Rightarrow> string \<Rightarrow> 'v registry \<Rightarrow> 'v registry \<times> 'v emission list" where
  "on_control_accept socketId sessionId sessions =
     (case map_get sessions sessionId of
        None \<Rightarrow> (sessions, [])
      | Some session \<Rightarrow>
          (map_set sessions sessionId (session\<lparr>controllerId := Some socketId\<rparr>),
           [Emit (ToRoom sessionId) (ControlChanged socketId),
            Emit ToSender (SceneSync (sceneState session))]))"

definition on_control_decline ::
  "string \<Rightarrow> string \<Rightarrow> string \<Rightarrow> 'v registry \<Rightarrow> 'v registry \<times> 'v emission list" where
  "on_control_decline socketId sessionId fromId sessions =
     (case map_get sessions sessionId of
        None \<Rightarrow> (sessions, [])
      | Some session \<Rightarrow>
          (sessions,
           [Emit (ToRoom fromId)
              (ControlDeclined socketId (user_name_or session socketId ''Guest''))]))"

definition on_viewer_join ::
  "string \<Rightarrow> string \<Rightarrow> 'v registry \<Rightarrow> 'v registry \<times> 'v emission list" where
  "on_viewer_join socketId sessionId sessions =
     (case map_get sessions sessionId of
        None \<Rightarrow> (sessions, [])
      | Some session \<Rightarrow>
          if falsy (controllerId session) then (sessions, [])
          else (sessions, [Emit (ToRoom (the (controllerId session))) (ViewerJoinEv socketId)]))"

definition on_webrtc_offer ::
  "string \<Rightarrow> string \<Rightarrow> 'v \<Rightarrow> 'v registry \<Rightarrow> 'v registry \<times> 'v emission list" where
  "on_webrtc_offer socketId to offer sessions =
     (sessions, [Emit (ToRoom to) (WebrtcOfferEv socketId offer)])"

definition on_webrtc_answer ::
  "string \<Rightarrow> string \<Rightarrow> 'v \<Rightarrow> 'v registry \<Rightarrow> 'v registry \<times> 'v emission list" where
  "on_webrtc_answer socketId to answer sessions =
     (sessions, [Emit (ToRoom to) (WebrtcAnswerEv socketId answer)])"

definition on_webrtc_ice ::
  "string \<Rightarrow> string \<Rightarrow> 'v \<Rightarrow> 'v registry \<Rightarrow> 'v registry \<times> 'v emission list" where
  "on_webrtc_ice socketId to candidate sessions =
     (sessions, [Emit (ToRoom to) (WebrtcIceEv socketId candidate)])"

text \<open>
  The body of the loop of the disconnect handler for one entry of the registry: the session
  after the body (\<open>None\<close> when the body deleted it from the registry) and the emissions.
  \<^verbatim>\<open>session.users.values().next().value?.id || null\<close> reads the \<^verbatim>\<open>id\<close> field of the first
  remaining user.
\<close>

definition first_user_id :: "(string \<times> user) list \<Rightarrow> string option" where
  "first_user_id us = (case us of [] \<Rightarrow> None | (k, u) # rest \<Rightarrow> Some (id' u))"

definition disconnect_session ::
  "string \<Rightarrow> string \<Rightarrow> 'v session \<Rightarrow> 'v session option \<times> 'v emission list" where
  "disconnect_session socketId sessionId session =
     (if \<not> map_has (users session) socketId then (Some session, [])
      else
        let wasController = (controllerId session = Some socketId);
            session1 = session\<lparr>users := map_delete (users session) socketId\<rparr>;
            left = [Emit (ToRoomExceptSender sessionId) (SessionUserLeft socketId)];
            nextController = or_null (first_user_id (users session1));
            session2 = (if wasController then session1\<lparr>controllerId := nextController\<rparr>
                        else session1);
            changed = (if wasController then
                         (case nextController of
                            None \<Rightarrow> []
                          | Some n \<Rightarrow> [Emit (ToRoom sessionId) (ControlChanged n),
                                       Emit (ToRoom n) (SceneSync (sceneState session2))])
                       else [])
        in (if users session2 = [] then None else Some session2, left @ changed))"

text \<open>
  The loop over \<^verbatim>\<open>sessions.entries()\<close>: every entry is visited once, in insertion order, and
  deleting the current entry does not disturb the iteration.
\<close>

fun on_disconnect :: "string \<Rightarrow> 'v registry \<Rightarrow> 'v registry \<times> 'v emission list" where
  "on_disconnect socketId [] = ([], [])"
| "on_disconnect socketId ((sessionId, session) # rest) =
     (let (kept, out) = disconnect_session socketId sessionId session;
          (rest', out') = on_disconnect socketId rest
      in ((case kept of None \<Rightarrow> [] | Some s \<Rightarrow> [(sessionId, s)]) @ rest', out @ out'))"

text \<open>The dispatch of one message of the socket \<open>socketId\<close>, received at time \<open>now\<close>.\<close>

fun handle ::
  "nat \<Rightarrow> string \<Rightarrow> 'v msg \<Rightarrow> 'v registry \<Rightarrow> 'v registry \<times> 'v emission list" where
  "handle now socketId (SessionJoin sessionId nm) sessions =
     on_session_join now socketId sessionId nm sessions"
| "handle now socketId (SceneUpdate sessionId delta) sessions =
     on_scene_update socketId sessionId delta sessions"
| "handle now socketId (PhotosUpdate sessionId photos) sessions =
     on_photos_update socketId sessionId photos sessions"
| "handle now socketId (ControlRequest sessionId) sessions =
     on_control_request socketId sessionId sessions"
| "handle now socketId (ControlOffer sessionId targetId) sessions =
     on_control_offer socketId sessionId targetId sessions"
| "handle now socketId (ControlAccept sessionId) sessions =
     on_control_accept socketId sessionId sessions"
| "handle now socketId (ControlDecline sessionId fromId) sessions =
     on_control_decline socketId sessionId fromId sessions"
| "handle now socketId (ViewerJoin sessionId) sessions =
     on_viewer_join socketId sessionId sessions"
| "handle now socketId (WebrtcOffer to offer) sessions =
     on_webrtc_offer socketId to offer sessions"
| "handle now socketId (WebrtcAnswer to answer) sessions =
     on_webrtc_answer socketId to answer sessions"
| "handle now socketId (WebrtcIce to candidate) sessions =
     on_webrtc_ice socketId to candidate sessions"
| "handle now socketId Disconnect sessions = on_disconnect socketId sessions"

text \<open>
  The server processes one message at a time. A run is a list of messages, each with the
  time of its arrival and the socket that sent it; the registry starts empty.
\<close>

fun run :: "'v registry \<Rightarrow> (nat \<times> string \<times> 'v msg) list \<Rightarrow> 'v registry" where
  "run sessions [] = sessions"
| "run sessions ((now, socketId, m) # ms) = run (fst (handle now socketId m sessions)) ms"

subsection \<open>The controller invariant\<close>

text \<open>
  The users of a session whose key is the session's \<^verbatim>\<open>controllerId\<close>, and the invariant of
  the data model: the keys of \<^verbatim>\<open>users\<close> are distinct (it is a \<^verbatim>\<open>Map\<close>), \<^verbatim>\<open>controllerId\<close> is
  \<^verbatim>\<open>null\<close> or a key of \<^verbatim>\<open>users\<close>, and at most one user is the controller.
\<close>

definition controllers :: "'v session \<Rightarrow> string list" where
  "controllers s = filter (\<lambda>k. controllerId s = Some k) (map fst (users s))"

definition session_inv :: "'v session \<Rightarrow> bool" where
  "session_inv s =
     (distinct (map fst (users s)) \<and>
      (case controllerId s of None \<Rightarrow> True | Some c \<Rightarrow> map_has (users s) c) \<and>
      length (controllers s) \<le> 1)"

definition registry_inv :: "'v registry \<Rightarrow> bool" where
  "registry_inv sessions = list_all (\<lambda>(sessionId, s). session_inv s) sessions"

text \<open>
  A run in which every \<^verbatim>\<open>control:accept\<close> that names an existing session comes from a socket
  that is, when the message arrives, a key of that session's \<^verbatim>\<open>users\<close>.
\<close>

fun member_accepts :: "'v registry \<Rightarrow> (nat \<times> string \<times> 'v msg) list \<Rightarrow> bool" where
  "member_accepts sessions [] = True"
| "member_accepts sessions ((now, socketId, m) # ms) =
     ((case m of
         ControlAccept sessionId \<Rightarrow>
           (case map_get sessions sessionId of
              None \<Rightarrow> True
            | Some s \<Rightarrow> map_has (users s) socketId)
       | _ \<Rightarrow> True) \<and>
      member_accepts (fst (handle now socketId m sessions)) ms)"

text \<open>
  The inductive strengthening: every user is stored under its own \<^verbatim>\<open>id\<close>, as
  \<^verbatim>\<open>session.users.set(socket.id, { id: socket.id, name })\<close> does; the successor elected on a
  disconnect is read from the \<^verbatim>\<open>id\<close> field.
\<close>

definition session_ok :: "'v session \<Rightarrow> bool" where
  "session_ok s =
     (distinct (map fst (users s)) \<and>
      set_option (controllerId s) \<subseteq> set (map fst (users s)) \<and>
      list_all (\<lambda>(k, u). id' u = k) (users s))"

definition registry_ok :: "'v registry \<Rightarrow> bool" where
  "registry_ok sessions = list_all (\<lambda>(sessionId, s). session_ok s) sessions"

section \<open>Session client\<close>

text \<open>
  The component \<^verbatim>\<open>SessionClient\<close> of the browser. Its React state and its refs are the fields
  of one record. The session id is a prop of the component and is a parameter of the
  functions below. Two parts of the browser are state of the model as well: the table of
  pending timers behind \<^verbatim>\<open>window.setTimeout\<close> and \<^verbatim>\<open>window.clearTimeout\<close>, with the clock in
  milliseconds, and the messages the socket has been asked to emit.
\<close>

subsection \<open>Data model\<close>

datatype scene_mode = CHAOS | FORMED | CAROUSEL | PHOTO

datatype canvas = Canvas

text \<open>\<^verbatim>\<open>canvas.captureStream(30)\<close>\<close>

datatype stream = CaptureStream canvas nat

text \<open>
  The messages the client emits that the claims are about: \<^verbatim>\<open>scene:update\<close> with the session
  id and the pair of scene state and rotation speed, and \<^verbatim>\<open>webrtc:offer\<close> with the viewer id
  and the offer.
\<close>

datatype ('r, 'o) outbound =
    SceneUpdateOut string scene_mode 'r
  | WebrtcOfferOut string 'o

record ('r, 'o) client =
  isController :: bool
  isControllerRef :: bool
  socketRef :: bool
  clientSceneState :: scene_mode
  rotationSpeed :: 'r
  sceneUpdateTimeoutRef :: "nat option"
  effectCleanup :: bool
  canvasRef :: "canvas option"
  localStreamRef :: "stream option"
  pendingViewersRef :: "string list"
  peerConnectionsRef :: "(string \<times> stream) list"
  timers :: "(nat \<times> nat \<times> ('r, 'o) outbound) list"
  nextTimerId :: nat
  clock :: nat
  outbox :: "('r, 'o) outbound list"

text \<open>
  \<open>socketRef\<close> tells whether \<^verbatim>\<open>socketRef.current\<close> is a socket; \<open>effectCleanup\<close> tells whether
  the last run of the scene-update effect returned its cleanup function. An entry of
  \<open>timers\<close> is the id of the timer, the time at which it is due, and the message its
  callback emits: the callback is a closure over the values of the render that set it.
\<close>

subsection \<open>Timers of the browser\<close>

definition setTimeout ::
  "('r, 'o) outbound \<Rightarrow> nat \<Rightarrow> ('r, 'o) client \<Rightarrow> nat \<times> ('r, 'o) client" where
  "setTimeout m delay c =
     (nextTimerId c,
      c\<lparr>timers := timers c @ [(nextTimerId c, clock c + delay, m)],
        nextTimerId := Suc (nextTimerId c)\<rparr>)"

definition clearTimeout :: "nat \<Rightarrow> ('r, 'o) client \<Rightarrow> ('r, 'o) client" where
  "clearTimeout tid c = c\<lparr>timers := filter (\<lambda>(i, due, m). i \<noteq> tid) (timers c)\<rparr>"

text \<open>
  Time passes up to \<open>t\<close>: every timer due by then runs its callback
  \<^verbatim>\<open>socketRef.current?.emit('scene:update', ...)\<close> and leaves the table.
\<close>

definition advance :: "nat \<Rightarrow> ('r, 'o) client \<Rightarrow> ('r, 'o) client" where
  "advance t c =
     c\<lparr>timers := filter (\<lambda>(i, due, m). \<not> due \<le> t) (timers c),
       clock := max (clock c) t,
       outbox := outbox c @
         (if socketRef c then map (\<lambda>(i, due, m). m) (filter (\<lambda>(i, due, m). due \<le> t) (timers c))
          else [])\<rparr>"

subsection \<open>The scene-update effect\<close>

text \<open>
  \<^verbatim>\<open>if (sceneUpdateTimeoutRef.current) window.clearTimeout(sceneUpdateTimeoutRef.current)\<close>:
  \<^verbatim>\<open>null\<close> and the number 0 are falsy.
\<close>

definition clear_scene_timer :: "('r, 'o) client \<Rightarrow> ('r, 'o) client" where
  "clear_scene_timer c =
     (case sceneUpdateTimeoutRef c of
        None \<Rightarrow> c
      | Some tid \<Rightarrow> if tid = 0 then c else clearTimeout tid c)"

text \<open>
  One run of the effect with the dependencies \<^verbatim>\<open>[sceneState, rotationSpeed, isController,
  sessionId]\<close>: React first runs the cleanup that the previous run returned, if it returned
  one, and then the body.
\<close>

definition scene_update_effect :: "string \<Rightarrow> ('r, 'o) client \<Rightarrow> ('r, 'o) client" where
  "scene_update_effect sid c =
     (let c0 = (if effectCleanup c then clear_scene_timer c else c)
      in if \<not> isController c0 \<or> \<not> socketRef c0 then c0\<lparr>effectCleanup := False\<rparr>
         else
           let c1 = clear_scene_timer c0;
               (tid, c2) = setTimeout (SceneUpdateOut sid (clientSceneState c1) (rotationSpeed c1))
                             150 c1
           in c2\<lparr>sceneUpdateTimeoutRef := Some tid, effectCleanup := True\<rparr>)"

text \<open>
  A local change sets the scene state and the rotation speed (\<^verbatim>\<open>handleGesture\<close>,
  \<^verbatim>\<open>handleMove\<close>). React runs the effect after the render only when a dependency has a new
  value.
\<close>

definition local_change ::
  "string \<Rightarrow> scene_mode \<Rightarrow> 'r \<Rightarrow> ('r, 'o) client \<Rightarrow> ('r, 'o) client" where
  "local_change sid s r c =
     (if s = clientSceneState c \<and> r = rotationSpeed c then c
      else scene_update_effect sid (c\<lparr>clientSceneState := s, rotationSpeed := r\<rparr>))"

text \<open>A sequence of local changes, each with the time at which it happens.\<close>

fun changes ::
  "string \<Rightarrow> (nat \<times> scene_mode \<times> 'r) list \<Rightarrow> ('r, 'o) client \<Rightarrow> ('r, 'o) client" where
  "changes sid [] c = c"
| "changes sid ((t, s, r) # es) c = changes sid es (local_change sid s r (advance t c))"

subsection \<open>The pending-viewer queue\<close>

text \<open>\<^verbatim>\<open>Set.prototype.add\<close>: a set iterates in insertion order and holds a value once.\<close>

definition set_add :: "'a list \<Rightarrow> 'a \<Rightarrow> 'a list" where
  "set_add xs x = (if x \<in> set xs then xs else xs @ [x])"

definition createControllerPeerConnection ::
  "string \<Rightarrow> stream \<Rightarrow> ('r, 'o) client \<Rightarrow> ('r, 'o) client" where
  "createControllerPeerConnection viewerId st c =
     c\<lparr>peerConnectionsRef := map_set (peerConnectionsRef c) viewerId st\<rparr>"

text \<open>
  \<^verbatim>\<open>sendOfferToViewer\<close> awaits \<^verbatim>\<open>pc.createOffer()\<close> and \<^verbatim>\<open>pc.setLocalDescription(offer)\<close> and
  then emits the offer. \<open>createOffer\<close> gives the offer the peer connection of a viewer
  produces, or \<open>None\<close> when the negotiation rejects; the rejection is swallowed by the
  caller and nothing is emitted. The peer connection is registered before the first
  \<^verbatim>\<open>await\<close>.
\<close>

definition sendOfferToViewer ::
  "(string \<Rightarrow> 'o option) \<Rightarrow> string \<Rightarrow> stream \<Rightarrow> ('r, 'o) client \<Rightarrow> ('r, 'o) client" where
  "sendOfferToViewer createOffer viewerId st c =
     (let c1 = createControllerPeerConnection viewerId st c
      in case createOffer viewerId of
           None \<Rightarrow> c1
         | Some offer \<Rightarrow> c1\<lparr>outbox := outbox c1 @ [WebrtcOfferOut viewerId offer]\<rparr>)"

definition flushPendingViewers ::
  "(string \<Rightarrow> 'o option) \<Rightarrow> stream \<Rightarrow> ('r, 'o) client \<Rightarrow> ('r, 'o) client" where
  "flushPendingViewers createOffer st c =
     (if \<not> socketRef c then c
      else
        let pending = pendingViewersRef c;
            c1 = c\<lparr>pendingViewersRef := []\<rparr>
        in foldl (\<lambda>c' viewerId. sendOfferToViewer createOffer viewerId st c') c1 pending)"

definition ensureLocalStream ::
  "(string \<Rightarrow> 'o option) \<Rightarrow> ('r, 'o) client \<Rightarrow> stream option \<times> ('r, 'o) client" where
  "ensureLocalStream createOffer c =
     (case canvasRef c of
        None \<Rightarrow> (None, c)
      | Some cv \<Rightarrow>
          (case localStreamRef c of
             Some st \<Rightarrow> (Some st, c)
           | None \<Rightarrow>
               let c1 = c\<lparr>localStreamRef := Some (CaptureStream cv 30)\<rparr>;
                   c2 = flushPendingViewers createOffer (CaptureStream cv 30) c1
               in (localStreamRef c2, c2)))"

definition closeControllerPeers :: "('r, 'o) client \<Rightarrow> ('r, 'o) client" where
  "closeControllerPeers c = c\<lparr>peerConnectionsRef := [], pendingViewersRef := []\<rparr>"

definition stopLocalStream :: "('r, 'o) client \<Rightarrow> ('r, 'o) client" where
  "stopLocalStream c = closeControllerPeers (c\<lparr>localStreamRef := None\<rparr>)"

text \<open>The handler of \<^verbatim>\<open>webrtc:viewer-join\<close> on the client.\<close>

definition on_client_viewer_join ::
  "(string \<Rightarrow> 'o option) \<Rightarrow> string \<Rightarrow> ('r, 'o) client \<Rightarrow> ('r, 'o) client" where
  "on_client_viewer_join createOffer viewerId c =
     (if \<not> isControllerRef c then c
      else
        let (st, c1) = ensureLocalStream createOffer c
        in case st of
             None \<Rightarrow> c1\<lparr>pendingViewersRef := set_add (pendingViewersRef c1) viewerId\<rparr>
           | Some s \<Rightarrow> sendOfferToViewer createOffer viewerId s c1)"

text \<open>The \<^verbatim>\<open>onCanvasReady\<close> callback given to the scene.\<close>

definition onCanvasReady ::
  "(string \<Rightarrow> 'o option) \<Rightarrow> canvas \<Rightarrow> ('r, 'o) client \<Rightarrow> ('r, 'o) client" where
  "onCanvasReady createOffer cv c =
     (let c1 = c\<lparr>canvasRef := Some cv\<rparr>
      in if isControllerRef c1 then snd (ensureLocalStream createOffer c1) else c1)"

text \<open>The effect on \<^verbatim>\<open>[isController]\<close> that starts or stops the local capture.\<close>

definition local_stream_effect ::
  "(string \<Rightarrow> 'o option) \<Rightarrow> ('r, 'o) client \<Rightarrow> ('r, 'o) client" where
  "local_stream_effect createOffer c =
     (if \<not> isController c then stopLocalStream c else snd (ensureLocalStream createOffer c))"

text \<open>The viewer-join messages of a list, handled in their order of arrival.\<close>

definition viewer_joins ::
  "(string \<Rightarrow> 'o option) \<Rightarrow> string list \<Rightarrow> ('r, 'o) client \<Rightarrow> ('r, 'o) client" where
  "viewer_joins createOffer vs c =
     foldl (\<lambda>c' viewerId. on_client_viewer_join createOffer viewerId c') c vs"

subsection \<open>Bursts of local changes\<close>

text \<open>
  The pending timers are tracked by the ref: the table is empty, or it holds one timer whose
  id is the non-zero value of \<^verbatim>\<open>sceneUpdateTimeoutRef.current\<close>. The browser hands out timer ids
  greater than zero.
\<close>

definition tracked :: "('r, 'o) client \<Rightarrow> bool" where
  "tracked c =
     (nextTimerId c \<noteq> 0 \<and>
      (case timers c of
         [] \<Rightarrow> True
       | [(tid, due, m)] \<Rightarrow> sceneUpdateTimeoutRef c = Some tid \<and> tid \<noteq> 0
       | _ \<Rightarrow> False))"

text \<open>
  Changes that follow a change at time \<open>t\<close>, each less than 150 ms after the one before it,
  and each with a pair of values that differs from the pair before it.
\<close>

fun paced :: "nat \<Rightarrow> (nat \<times> scene_mode \<times> 'r) list \<Rightarrow> bool" where
  "paced t [] = True"
| "paced t ((t', s, r) # es) = (t \<le> t' \<and> t' < t + 150 \<and> paced t' es)"

fun changing :: "scene_mode \<times> 'r \<Rightarrow> (nat \<times> scene_mode \<times> 'r) list \<Rightarrow> bool" where
  "changing v [] = True"
| "changing v ((t, s, r) # es) = ((s, r) \<noteq> v \<and> changing (s, r) es)"

text \<open>
  The state right after the effect ran at time \<open>t\<close> on a controller with a socket: one
  timer is pending, it is the one the ref names, it is due at \<open>t + 150\<close>, and its callback
  emits the pair \<open>s\<close>, \<open>r\<close> of that render.
\<close>

definition armed ::
  "string \<Rightarrow> nat \<Rightarrow> scene_mode \<Rightarrow> 'r \<Rightarrow> ('r, 'o) client \<Rightarrow> bool" where
  "armed sid t s r c =
     (case sceneUpdateTimeoutRef c of
        None \<Rightarrow> False
      | Some tid \<Rightarrow>
          timers c = [(tid, t + 150, SceneUpdateOut sid s r)] \<and> tid \<noteq> 0 \<and>
          nextTimerId c \<noteq> 0 \<and> clock c = t \<and> isController c \<and> socketRef c \<and>
          clientSceneState c = s \<and> rotationSpeed c = r)"

section \<open>Properties of the server\<close>

subsection \<open>Map operations\<close>

lemma map_get_set_same: "map_get (map_set m k v) k = Some v"
  by (induction m) auto

lemma map_get_set_other: "k' \<noteq> k \<Longrightarrow> map_get (map_set m k v) k' = map_get m k'"
  by (induction m) auto

lemma map_has_keys: "map_has m k = (k \<in> set (map fst m))"
  by (induction m) auto

lemma map_has_get: "map_has m k = (map_get m k \<noteq> None)"
  by (induction m) (auto split: if_splits)

lemma keys_map_set:
  "map fst (map_set m k v) = (if k \<in> set (map fst m) then map fst m else map fst m @ [k])"
  by (induction m) (auto split: if_splits)

lemma keys_map_delete: "map fst (map_delete m k) = removeAll k (map fst m)"
  by (induction m) auto

lemma set_map_set: "set (map_set m k v) \<subseteq> insert (k, v) (set m)"
  by (induction m) (auto split: if_splits)

lemma map_get_in_set: "map_get m k = Some v \<Longrightarrow> (k, v) \<in> set m"
  by (induction m) (auto split: if_splits)

subsection \<open>The controller invariant is kept by every handler\<close>

lemma length_filter_eq_distinct: "distinct xs \<Longrightarrow> length (filter (\<lambda>k. c = Some k) xs) \<le> 1"
  by (induction xs) (auto simp: filter_empty_conv)

lemma session_inv_iff:
  "session_inv s = (distinct (map fst (users s)) \<and>
      (case controllerId s of None \<Rightarrow> True | Some c \<Rightarrow> c \<in> set (map fst (users s))))"
  using length_filter_eq_distinct [of "map fst (users s)" "controllerId s"]
  by (auto simp: session_inv_def controllers_def map_has_keys split: option.splits)

lemma session_ok_inv: "session_ok s \<Longrightarrow> session_inv s"
  by (auto simp: session_ok_def session_inv_iff split: option.splits)

lemma registry_ok_inv: "registry_ok sessions \<Longrightarrow> registry_inv sessions"
  by (auto simp: registry_ok_def registry_inv_def list_all_iff session_ok_inv)

lemma registry_ok_get:
  "registry_ok sessions \<Longrightarrow> map_get sessions k = Some s \<Longrightarrow> session_ok s"
  by (auto simp: registry_ok_def list_all_iff dest: map_get_in_set)

lemma registry_ok_set:
  "registry_ok sessions \<Longrightarrow> session_ok s \<Longrightarrow> registry_ok (map_set sessions k s)"
  using set_map_set [of sessions k s] by (auto simp: registry_ok_def list_all_iff)

lemma session_ok_new: "session_ok (new_session now)"
  by (simp add: session_ok_def new_session_def)

lemma getSession_ok:
  "registry_ok sessions \<Longrightarrow> getSession now sessions k = (sessions', s) \<Longrightarrow>
   registry_ok sessions' \<and> session_ok s"
  by (auto simp: getSession_def Let_def map_get_set_same session_ok_new registry_ok_set
      map_has_get split: if_splits option.splits dest: registry_ok_get)

lemma session_ok_join:
  assumes "session_ok s"
  shows "session_ok (s\<lparr>users := map_set (users s) k \<lparr>id' = k, name = nm\<rparr>, controllerId := Some k\<rparr>)"
    and "session_ok (s\<lparr>users := map_set (users s) k \<lparr>id' = k, name = nm\<rparr>\<rparr>)"
  using assms set_map_set [of "users s" k "\<lparr>id' = k, name = nm\<rparr>"]
  by (auto simp: session_ok_def keys_map_set list_all_iff split: option.splits)

lemma on_session_join_ok:
  "registry_ok sessions \<Longrightarrow> registry_ok (fst (on_session_join now k sid nm sessions))"
  by (auto simp: on_session_join_def Let_def split: prod.splits
      intro!: registry_ok_set session_ok_join dest: getSession_ok)

lemma session_ok_scene: "session_ok s \<Longrightarrow> session_ok (s\<lparr>sceneState := b\<rparr>)"
  by (simp add: session_ok_def split: option.splits)

lemma on_scene_update_ok:
  "registry_ok sessions \<Longrightarrow> registry_ok (fst (on_scene_update k sid d sessions))"
  by (auto simp: on_scene_update_def split: option.splits
      intro!: registry_ok_set session_ok_scene dest: registry_ok_get)

lemma on_photos_update_ok:
  "registry_ok sessions \<Longrightarrow> registry_ok (fst (on_photos_update k sid d sessions))"
  by (auto simp: on_photos_update_def split: option.splits
      intro!: registry_ok_set session_ok_scene dest: registry_ok_get)

lemma session_ok_accept:
  "session_ok s \<Longrightarrow> map_has (users s) k \<Longrightarrow> session_ok (s\<lparr>controllerId := Some k\<rparr>)"
  by (simp add: session_ok_def map_has_keys split: option.splits)

lemma on_control_accept_ok:
  "registry_ok sessions \<Longrightarrow>
   (case map_get sessions sid of None \<Rightarrow> True | Some s \<Rightarrow> map_has (users s) k) \<Longrightarrow>
   registry_ok (fst (on_control_accept k sid sessions))"
  by (auto simp: on_control_accept_def split: option.splits
      intro!: registry_ok_set session_ok_accept dest: registry_ok_get)

lemma first_user_id_key:
  "list_all (\<lambda>(k, u). id' u = k) us \<Longrightarrow> or_null (first_user_id us) = Some n \<Longrightarrow>
   n \<in> set (map fst us)"
  by (cases us) (auto simp: or_null_def first_user_id_def split: if_splits)

lemma map_delete_keeps: "c \<in> set (map fst m) \<Longrightarrow> c \<noteq> k \<Longrightarrow> c \<in> set (map fst (map_delete m k))"
  by (simp add: keys_map_delete)

lemma list_all_map_delete: "list_all P m \<Longrightarrow> list_all P (map_delete m k)"
  by (induction m) auto

lemma session_ok_delete:
  assumes "session_ok s"
  shows "distinct (map fst (map_delete (users s) k))"
    and "list_all (\<lambda>(k, u). id' u = k) (map_delete (users s) k)"
    and "controllerId s = Some c \<Longrightarrow> c \<noteq> k \<Longrightarrow> c \<in> set (map fst (map_delete (users s) k))"
proof -
  from assms show "distinct (map fst (map_delete (users s) k))"
    by (simp add: session_ok_def keys_map_delete distinct_removeAll)
  from assms show "list_all (\<lambda>(k, u). id' u = k) (map_delete (users s) k)"
    by (simp add: session_ok_def list_all_map_delete)
  assume "controllerId s = Some c" and "c \<noteq> k"
  with assms show "c \<in> set (map fst (map_delete (users s) k))"
    by (intro map_delete_keeps) (simp_all add: session_ok_def)
qed

lemma session_ok_leave_plain:
  assumes "session_ok s" and "controllerId s \<noteq> Some k"
  shows "session_ok (s\<lparr>users := map_delete (users s) k\<rparr>)"
proof -
  have "set_option (controllerId s) \<subseteq> set (map fst (map_delete (users s) k))"
  proof (cases "controllerId s")
    case None
    then show ?thesis by simp
  next
    case (Some c)
    with assms(2) have "c \<noteq> k" by simp
    from session_ok_delete(3) [OF assms(1) Some this] show ?thesis by (simp add: Some)
  qed
  then show ?thesis
    using session_ok_delete(1,2) [OF assms(1), of k] by (simp add: session_ok_def)
qed

lemma session_ok_leave_controller:
  assumes "session_ok s"
  shows "session_ok (s\<lparr>users := map_delete (users s) k,
                        controllerId := or_null (first_user_id (map_delete (users s) k))\<rparr>)"
proof -
  let ?us = "map_delete (users s) k"
  have ids: "list_all (\<lambda>(k, u). id' u = k) ?us"
    by (rule session_ok_delete(2) [OF assms])
  have "set_option (or_null (first_user_id ?us)) \<subseteq> set (map fst ?us)"
  proof (cases "or_null (first_user_id ?us)")
    case None
    then show ?thesis by simp
  next
    case (Some n)
    with first_user_id_key [OF ids Some] show ?thesis by simp
  qed
  then show ?thesis
    using session_ok_delete(1) [OF assms, of k] ids by (simp add: session_ok_def)
qed

lemma disconnect_session_ok:
  assumes "session_ok s" and "disconnect_session k sid s = (Some s', out)"
  shows "session_ok s'"
proof (cases "map_has (users s) k")
  case False
  with assms show ?thesis by (simp add: disconnect_session_def)
next
  case True
  show ?thesis
  proof (cases "controllerId s = Some k")
    case True
    with assms(2) \<open>map_has (users s) k\<close>
    have "s' = s\<lparr>users := map_delete (users s) k,
                  controllerId := or_null (first_user_id (map_delete (users s) k))\<rparr>"
      by (simp add: disconnect_session_def Let_def split: if_splits)
    then show ?thesis by (simp add: session_ok_leave_controller [OF assms(1)])
  next
    case False
    with assms(2) \<open>map_has (users s) k\<close>
    have "s' = s\<lparr>users := map_delete (users s) k\<rparr>"
      by (simp add: disconnect_session_def Let_def split: if_splits)
    then show ?thesis by (simp add: session_ok_leave_plain [OF assms(1) False])
  qed
qed

lemma on_disconnect_ok:
  "registry_ok sessions \<Longrightarrow> registry_ok (fst (on_disconnect k sessions))"
proof (induction sessions)
  case Nil
  then show ?case by simp
next
  case (Cons p sessions)
  obtain sid s where p: "p = (sid, s)" by (cases p)
  from Cons.prems have s: "session_ok s" and rest: "registry_ok sessions"
    by (simp_all add: p registry_ok_def)
  obtain kept out where d: "disconnect_session k sid s = (kept, out)"
    by (cases "disconnect_session k sid s")
  have "registry_ok (fst (on_disconnect k sessions))" using Cons.IH rest by simp
  then show ?case
    using disconnect_session_ok [OF s, of k sid] d
    by (auto simp: p registry_ok_def split: prod.splits option.splits)
qed

lemma handle_ok:
  "registry_ok sessions \<Longrightarrow>
   (case m of
      ControlAccept sessionId \<Rightarrow>
        (case map_get sessions sessionId of None \<Rightarrow> True | Some s \<Rightarrow> map_has (users s) k)
    | _ \<Rightarrow> True) \<Longrightarrow>
   registry_ok (fst (handle now k m sessions))"
  by (cases m)
     (simp_all add: on_session_join_ok on_scene_update_ok on_photos_update_ok
        on_control_accept_ok on_disconnect_ok
        on_control_request_def on_control_offer_def on_control_decline_def on_viewer_join_def
        on_webrtc_offer_def on_webrtc_answer_def on_webrtc_ice_def split: option.splits)

lemma run_ok:
  "registry_ok sessions \<Longrightarrow> member_accepts sessions ms \<Longrightarrow> registry_ok (run sessions ms)"
proof (induction ms arbitrary: sessions)
  case Nil
  then show ?case by simp
next
  case (Cons a ms)
  obtain now k m where a: "a = (now, k, m)" by (cases a)
  from Cons.prems have "registry_ok (fst (handle now k m sessions))"
    by (intro handle_ok) (simp_all add: a)
  with Cons show ?case by (simp add: a)
qed

subsection \<open>Joining\<close>

lemma map_set_fresh: "\<not> map_has m k \<Longrightarrow> map_set m k v = m @ [(k, v)]"
  by (induction m) (auto split: if_splits)

lemma map_set_keys_present: "map_has m k \<Longrightarrow> map fst (map_set m k v) = map fst m"
  by (simp add: keys_map_set map_has_keys)

lemma map_set_idem: "map_set (map_set m k v) k v = map_set m k v"
  by (induction m) auto

lemma map_set_overwrite: "map_set (map_set m k v) k w = map_set m k w"
  by (induction m) auto

lemma map_get_append_fresh: "\<not> map_has m k \<Longrightarrow> map_get (m @ [(k, v)]) k = Some v"
  by (induction m) (auto split: if_splits)

lemma map_set_append_fresh: "\<not> map_has m k \<Longrightarrow> map_set (m @ [(k, v)]) k w = m @ [(k, w)]"
  by (induction m) (auto split: if_splits)

lemma getSession_fresh:
  "map_get sessions k = None \<Longrightarrow>
   getSession now sessions k = (sessions @ [(k, new_session now)], new_session now)"
  by (simp add: getSession_def Let_def map_has_get map_set_fresh map_get_append_fresh)

lemma getSession_present:
  "map_get sessions k = Some s \<Longrightarrow> getSession now sessions k = (sessions, s)"
  by (simp add: getSession_def Let_def map_has_get)

lemma getUsersPayload_eq: "getUsersPayload s = map snd (users s)"
  by (simp add: getUsersPayload_def)

lemma map_get_set_present_other: "map_get (map_set m k v) k' = (if k' = k then Some v else map_get m k')"
  by (simp add: map_get_set_same map_get_set_other)

lemma falsy_Some: "c \<noteq> [] \<Longrightarrow> \<not> falsy (Some c)"
  by simp

subsection \<open>Disconnecting\<close>











section \<open>Properties of the client\<close>

subsection \<open>The pending-viewer queue\<close>

lemma viewer_join_queued:
  assumes "isControllerRef c" and "canvasRef c = None"
  shows "on_client_viewer_join createOffer v c = c\<lparr>pendingViewersRef := set_add (pendingViewersRef c) v\<rparr>"
  using assms by (simp add: on_client_viewer_join_def ensureLocalStream_def)

lemma viewer_joins_queued:
  assumes "isControllerRef c" and "canvasRef c = None"
  shows "viewer_joins createOffer vs c = c\<lparr>pendingViewersRef := foldl set_add (pendingViewersRef c) vs\<rparr>"
  using assms
proof (induction vs arbitrary: c)
  case Nil
  then show ?case by (simp add: viewer_joins_def)
next
  case (Cons v vs)
  let ?c1 = "c\<lparr>pendingViewersRef := set_add (pendingViewersRef c) v\<rparr>"
  have "viewer_joins createOffer (v # vs) c = viewer_joins createOffer vs ?c1"
    using Cons.prems by (simp add: viewer_joins_def viewer_join_queued)
  also have "\<dots> = ?c1\<lparr>pendingViewersRef := foldl set_add (pendingViewersRef ?c1) vs\<rparr>"
    using Cons.prems by (intro Cons.IH) simp_all
  finally show ?case by simp
qed

lemma distinct_set_add: "distinct xs \<Longrightarrow> distinct (set_add xs x)"
  by (simp add: set_add_def)

lemma set_set_add: "set (set_add xs x) = insert x (set xs)"
  by (auto simp: set_add_def)

lemma foldl_set_add:
  "distinct xs \<Longrightarrow> distinct (foldl set_add xs vs) \<and> set (foldl set_add xs vs) = set xs \<union> set vs"
  by (induction vs arbitrary: xs) (auto simp: distinct_set_add set_set_add)

lemma sendOfferToViewer_fields:
  "pendingViewersRef (sendOfferToViewer createOffer v st c) = pendingViewersRef c"
  "localStreamRef (sendOfferToViewer createOffer v st c) = localStreamRef c"
  "outbox (sendOfferToViewer createOffer v st c) =
     outbox c @ (case createOffer v of None \<Rightarrow> [] | Some offer \<Rightarrow> [WebrtcOfferOut v offer])"
  by (cases "createOffer v";
      simp add: sendOfferToViewer_def createControllerPeerConnection_def)+

lemma send_offers_outbox:
  assumes "\<forall>v. createOffer v = Some (f v)"
  shows "outbox (foldl (\<lambda>c' v. sendOfferToViewer createOffer v st c') c vs)
           = outbox c @ map (\<lambda>v. WebrtcOfferOut v (f v)) vs"
  using assms by (induction vs arbitrary: c) (simp_all add: sendOfferToViewer_fields)

lemma send_offers_pending:
  "pendingViewersRef (foldl (\<lambda>c' v. sendOfferToViewer createOffer v st c') c vs) = pendingViewersRef c"
  by (induction vs arbitrary: c) (simp_all add: sendOfferToViewer_fields)

lemma send_offers_stream:
  "localStreamRef (foldl (\<lambda>c' v. sendOfferToViewer createOffer v st c') c vs) = localStreamRef c"
  by (induction vs arbitrary: c) (simp_all add: sendOfferToViewer_fields)

lemma canvas_ready_flushes:
  assumes "isControllerRef c" and "socketRef c" and "localStreamRef c = None"
    and "\<forall>v. createOffer v = Some (f v)"
  shows "outbox (onCanvasReady createOffer cv c)
           = outbox c @ map (\<lambda>v. WebrtcOfferOut v (f v)) (pendingViewersRef c)"
    and "pendingViewersRef (onCanvasReady createOffer cv c) = []"
    and "localStreamRef (onCanvasReady createOffer cv c) = Some (CaptureStream cv 30)"
  using assms(1-3)
  by (simp_all add: onCanvasReady_def ensureLocalStream_def flushPendingViewers_def Let_def
      send_offers_outbox [OF assms(4)] send_offers_pending send_offers_stream)

lemma remdups_skip: "v \<in> set zs \<Longrightarrow> remdups (ys @ v # zs) = remdups (ys @ zs)"
  by (induction ys) auto

lemma foldl_set_add_first_arrivals:
  "foldl set_add xs vs = rev (remdups (rev (xs @ vs)))" if "distinct xs"
  using that
proof (induction vs arbitrary: xs)
  case Nil
  then show ?case by (simp add: distinct_remdups_id)
next
  case (Cons v vs)
  have "foldl set_add xs (v # vs) = rev (remdups (rev (set_add xs v @ vs)))"
    using Cons.IH [of "set_add xs v"] Cons.prems by (simp add: distinct_set_add)
  also have "remdups (rev (set_add xs v @ vs)) = remdups (rev (xs @ v # vs))"
    using remdups_skip [of v "rev xs" "rev vs"] by (simp add: set_add_def)
  finally show ?case .
qed

subsection \<open>The scene-update timer\<close>

lemma tracked_cases:
  assumes "tracked c"
  obtains "timers c = []" "nextTimerId c \<noteq> 0"
  | tid due m where "timers c = [(tid, due, m)]" "sceneUpdateTimeoutRef c = Some tid" "tid \<noteq> 0"
      "nextTimerId c \<noteq> 0"
  using assms by (auto simp: tracked_def split: list.splits)

lemma advance_tracked: "tracked c \<Longrightarrow> tracked (advance t c)"
  by (erule tracked_cases) (auto simp: tracked_def advance_def)

lemma advance_fields:
  "isController (advance t c) = isController c"
  "socketRef (advance t c) = socketRef c"
  "clientSceneState (advance t c) = clientSceneState c"
  "rotationSpeed (advance t c) = rotationSpeed c"
  "nextTimerId (advance t c) = nextTimerId c"
  "clock (advance t c) = max (clock c) t"
  by (simp_all add: advance_def)

lemma clear_scene_timer_tracked:
  assumes "tracked c"
  shows "clear_scene_timer c = c\<lparr>timers := []\<rparr>"
  using assms
  by (rule tracked_cases) (auto simp: clear_scene_timer_def clearTimeout_def split: option.splits)

lemma effect_arms:
  assumes "tracked c" and "isController c" and "socketRef c" and "nextTimerId c \<noteq> 0"
  shows "armed sid (clock c) (clientSceneState c) (rotationSpeed c) (scene_update_effect sid c)"
    and "outbox (scene_update_effect sid c) = outbox c"
proof -
  have t0: "tracked (c\<lparr>timers := []\<rparr>)" using assms(1) by (simp add: tracked_def)
  have c0: "clear_scene_timer (if effectCleanup c then clear_scene_timer c else c) = c\<lparr>timers := []\<rparr>"
    using clear_scene_timer_tracked [OF assms(1)] clear_scene_timer_tracked [OF t0]
    by simp
  have ic: "isController (if effectCleanup c then clear_scene_timer c else c)"
    and sr: "socketRef (if effectCleanup c then clear_scene_timer c else c)"
    using assms(2,3) clear_scene_timer_tracked [OF assms(1)] by simp_all
  show "armed sid (clock c) (clientSceneState c) (rotationSpeed c) (scene_update_effect sid c)"
    using assms(2-4) ic sr
    by (simp add: scene_update_effect_def Let_def c0 setTimeout_def armed_def)
  show "outbox (scene_update_effect sid c) = outbox c"
    using ic sr by (simp add: scene_update_effect_def Let_def c0 setTimeout_def)
qed

lemma tracked_values:
  "tracked c \<Longrightarrow> tracked (c\<lparr>clientSceneState := s, rotationSpeed := r\<rparr>)"
  by (erule tracked_cases) (simp_all add: tracked_def)

lemma change_arms:
  assumes "tracked c" and "isController c" and "socketRef c" and "clock c \<le> t"
    and "(s, r) \<noteq> (clientSceneState c, rotationSpeed c)"
  shows "armed sid t s r (local_change sid s r (advance t c))"
    and "outbox (local_change sid s r (advance t c)) = outbox (advance t c)"
proof -
  let ?c = "(advance t c)\<lparr>clientSceneState := s, rotationSpeed := r\<rparr>"
  have tr: "tracked ?c" using advance_tracked [OF assms(1), of t] by (rule tracked_values)
  have n: "nextTimerId ?c \<noteq> 0" using assms(1) by (simp add: tracked_def advance_fields)
  have lc: "local_change sid s r (advance t c) = scene_update_effect sid ?c"
    using assms(5) by (auto simp: local_change_def advance_fields)
  from effect_arms [OF tr _ _ n, of sid] assms(2,3,4)
  show "armed sid t s r (local_change sid s r (advance t c))"
    and "outbox (local_change sid s r (advance t c)) = outbox (advance t c)"
    by (simp_all add: lc advance_fields max_def)
qed

lemma armed_tracked: "armed sid t s r c \<Longrightarrow> tracked c"
  by (auto simp: armed_def tracked_def split: option.splits)

lemma armed_early: "armed sid t s r c \<Longrightarrow> T < t + 150 \<Longrightarrow> outbox (advance T c) = outbox c"
  by (auto simp: armed_def advance_def split: option.splits)

lemma armed_fires:
  "armed sid t s r c \<Longrightarrow> t + 150 \<le> T \<Longrightarrow>
   outbox (advance T c) = outbox c @ [SceneUpdateOut sid s r] \<and> timers (advance T c) = []"
  by (auto simp: armed_def advance_def split: option.splits)

lemma changes_armed:
  assumes "armed sid t s r c" and "paced t es" and "changing (s, r) es"
    and "last ((t, s, r) # es) = (tN, sN, rN)"
  shows "armed sid tN sN rN (changes sid es c) \<and> outbox (changes sid es c) = outbox c"
  using assms
proof (induction es arbitrary: c t s r)
  case Nil
  then show ?case by simp
next
  case (Cons e es)
  obtain t' s' r' where e: "e = (t', s', r')" by (cases e)
  from Cons.prems(2) have t': "t \<le> t'" "t' < t + 150" and p: "paced t' es" by (simp_all add: e)
  from Cons.prems(3) have ch: "(s', r') \<noteq> (s, r)" and ch': "changing (s', r') es"
    by (simp_all add: e)
  from Cons.prems(1) have f: "isController c" "socketRef c" "clock c \<le> t'"
    "clientSceneState c = s" "rotationSpeed c = r"
    using t' by (auto simp: armed_def split: option.splits)
  let ?c1 = "local_change sid s' r' (advance t' c)"
  have a1: "armed sid t' s' r' ?c1" and o1: "outbox ?c1 = outbox (advance t' c)"
    using change_arms [OF armed_tracked [OF Cons.prems(1)] f(1,2,3), of s' r' sid] ch f(4,5)
    by simp_all
  have o2: "outbox (advance t' c) = outbox c"
    by (rule armed_early [OF Cons.prems(1) t'(2)])
  from Cons.prems(4) have l: "last ((t', s', r') # es) = (tN, sN, rN)" by (simp add: e)
  from Cons.IH [OF a1 p ch' l] o1 o2 show ?case by (simp add: e)
qed

text \<open>The effect and the passing of time keep the pending timers tracked by the ref.\<close>

lemma tracked_cleanup_flag: "tracked c \<Longrightarrow> tracked (c\<lparr>effectCleanup := b\<rparr>)"
  by (erule tracked_cases) (simp_all add: tracked_def)

lemma scene_update_effect_tracked:
  assumes "tracked c"
  shows "tracked (scene_update_effect sid c)"
proof (cases "isController c \<and> socketRef c")
  case True
  from assms have "nextTimerId c \<noteq> 0" by (simp add: tracked_def)
  from effect_arms(1) [OF assms _ _ this, of sid] True show ?thesis
    by (simp add: armed_tracked)
next
  case False
  have "tracked (c\<lparr>timers := []\<rparr>)" using assms by (simp add: tracked_def)
  then have "tracked (if effectCleanup c then clear_scene_timer c else c)"
    using assms by (simp add: clear_scene_timer_tracked)
  then have "tracked ((if effectCleanup c then clear_scene_timer c else c)\<lparr>effectCleanup := False\<rparr>)"
    by (rule tracked_cleanup_flag)
  moreover have "\<not> isController (if effectCleanup c then clear_scene_timer c else c) \<or>
                 \<not> socketRef (if effectCleanup c then clear_scene_timer c else c)"
    using False assms by (auto simp: clear_scene_timer_tracked)
  ultimately show ?thesis by (simp add: scene_update_effect_def Let_def)
qed

section \<open>The claims about the server\<close>

text \<open>
  C1, as stated: in every registry reachable from the empty one by any sequence of
  messages, every session's \<^verbatim>\<open>controllerId\<close> is \<^verbatim>\<open>null\<close> or a key of its \<^verbatim>\<open>users\<close>, and at most
  one user is the controller. This fails: \<^verbatim>\<open>control:accept\<close> assigns the sender without
  looking the sender up in \<^verbatim>\<open>users\<close>. After A joins session s, a socket B that never joined
  sends \<^verbatim>\<open>control:accept\<close> for s and becomes the controller of a session it is not a user of.
\<close>

theorem controller_invariant_counterexample:
  "\<not> registry_inv (run ([] :: nat registry)
        [(0, ''A'', SessionJoin ''s'' ''a''), (1, ''B'', ControlAccept ''s'')])"
  by (simp add: registry_inv_def session_inv_def on_session_join_def getSession_def
      new_session_def on_control_accept_def Let_def)

text \<open>
  C1, amended: in every registry reachable from the empty one by a sequence of messages in
  which every \<^verbatim>\<open>control:accept\<close> naming an existing session is sent by a socket that is then a
  key of that session's \<^verbatim>\<open>users\<close>, every session's \<^verbatim>\<open>controllerId\<close> is \<^verbatim>\<open>null\<close> or a key of its
  \<^verbatim>\<open>users\<close>, the keys of \<^verbatim>\<open>users\<close> are distinct, and at most one user is the controller.
\<close>

theorem controller_invariant_member_accepts:
  "member_accepts [] ms \<Longrightarrow> registry_inv (run [] ms)"
  by (rule registry_ok_inv, rule run_ok) (simp_all add: registry_ok_def)

theorem controller_invariant_member_accepts_witness:
  "member_accepts ([] :: nat registry)
     [(0, ''A'', SessionJoin ''s'' ''a''), (1, ''B'', SessionJoin ''s'' ''b''),
      (2, ''B'', ControlAccept ''s''), (3, ''B'', Disconnect)] \<and>
   registry_inv (run ([] :: nat registry)
     [(0, ''A'', SessionJoin ''s'' ''a''), (1, ''B'', SessionJoin ''s'' ''b''),
      (2, ''B'', ControlAccept ''s''), (3, ''B'', Disconnect)])"
proof -
  have h: "member_accepts ([] :: nat registry)
     [(0, ''A'', SessionJoin ''s'' ''a''), (1, ''B'', SessionJoin ''s'' ''b''),
      (2, ''B'', ControlAccept ''s''), (3, ''B'', Disconnect)]"
    by (simp add: on_session_join_def getSession_def new_session_def Let_def
        on_control_accept_def)
  from h controller_invariant_member_accepts [OF h] show ?thesis by (rule conjI)
qed

text \<open>
  C2: for every existing session and every sender, \<^verbatim>\<open>control:accept\<close> sets the session's
  \<^verbatim>\<open>controllerId\<close> to the sender with no other check, emits \<^verbatim>\<open>control:changed\<close> with the
  sender's id to the whole room of the session, and emits \<^verbatim>\<open>scene:sync\<close> with the session's
  current \<^verbatim>\<open>sceneState\<close> to the sender only.
\<close>

theorem control_accept_unconditional:
  assumes "map_get sessions sessionId = Some session"
  shows "handle now socketId (ControlAccept sessionId) sessions =
           (map_set sessions sessionId (session\<lparr>controllerId := Some socketId\<rparr>),
            [Emit (ToRoom sessionId) (ControlChanged socketId),
             Emit ToSender (SceneSync (sceneState session))]) \<and>
         map_get (fst (handle now socketId (ControlAccept sessionId) sessions)) sessionId =
           Some (session\<lparr>controllerId := Some socketId\<rparr>)"
  using assms by (simp add: on_control_accept_def map_get_set_same)

theorem control_accept_unconditional_witness:
  "map_get [(''s'', \<lparr>users = [(''A'', \<lparr>id' = ''A'', name = ''a''\<rparr>)], controllerId = Some ''A'',
                      sceneState = (None :: nat blob option), createdAt = 0\<rparr>)] ''s''
     = Some \<lparr>users = [(''A'', \<lparr>id' = ''A'', name = ''a''\<rparr>)], controllerId = Some ''A'',
             sceneState = None, createdAt = 0\<rparr> \<and>
   handle 5 ''B'' (ControlAccept ''s'')
     [(''s'', \<lparr>users = [(''A'', \<lparr>id' = ''A'', name = ''a''\<rparr>)], controllerId = Some ''A'',
              sceneState = (None :: nat blob option), createdAt = 0\<rparr>)] =
     ([(''s'', \<lparr>users = [(''A'', \<lparr>id' = ''A'', name = ''a''\<rparr>)], controllerId = Some ''B'',
               sceneState = None, createdAt = 0\<rparr>)],
      [Emit (ToRoom ''s'') (ControlChanged ''B''), Emit ToSender (SceneSync None)])"
  using control_accept_unconditional [of
      "[(''s'', \<lparr>users = [(''A'', \<lparr>id' = ''A'', name = ''a''\<rparr>)], controllerId = Some ''A'',
                sceneState = (None :: nat blob option), createdAt = 0\<rparr>)]"
      "''s''"
      "\<lparr>users = [(''A'', \<lparr>id' = ''A'', name = ''a''\<rparr>)], controllerId = Some ''A'',
        sceneState = None, createdAt = 0\<rparr>" 5 "''B''"]
  by simp



text \<open>
  C4: a \<^verbatim>\<open>scene:update\<close>, \<^verbatim>\<open>photos:update\<close> or \<^verbatim>\<open>control:offer\<close> whose session id is not in the
  registry, or whose sender is not the session's \<^verbatim>\<open>controllerId\<close>, leaves the registry as it
  is and emits nothing, neither to the room nor to the sender.
\<close>

theorem unauthorized_or_unknown_dropped:
  assumes "m = SceneUpdate sessionId delta \<or> m = PhotosUpdate sessionId photos
             \<or> m = ControlOffer sessionId targetId"
    and "map_get sessions sessionId = None \<or>
         (\<exists>session. map_get sessions sessionId = Some session \<and>
                    controllerId session \<noteq> Some socketId)"
  shows "handle now socketId m sessions = (sessions, [])"
  using assms
  by (auto simp: on_scene_update_def on_photos_update_def on_control_offer_def)

theorem unauthorized_or_unknown_dropped_witness:
  "handle 3 ''B'' (SceneUpdate ''s'' [''sceneState'' \<mapsto> 2]) [(''s'', \<lparr>users = [(''A'', \<lparr>id' = ''A'', name = ''a''\<rparr>), (''B'', \<lparr>id' = ''B'', name = ''b''\<rparr>)],
        controllerId = Some ''A'', sceneState = (None :: nat blob option), createdAt = 0\<rparr>)] =
     ([(''s'', \<lparr>users = [(''A'', \<lparr>id' = ''A'', name = ''a''\<rparr>), (''B'', \<lparr>id' = ''B'', name = ''b''\<rparr>)],
        controllerId = Some ''A'', sceneState = (None :: nat blob option), createdAt = 0\<rparr>)], [])"
proof -
  let ?s = "\<lparr>users = [(''A'', \<lparr>id' = ''A'', name = ''a''\<rparr>), (''B'', \<lparr>id' = ''B'', name = ''b''\<rparr>)],
        controllerId = Some ''A'', sceneState = (None :: nat blob option), createdAt = 0\<rparr>"
  have h1: "SceneUpdate ''s'' [''sceneState'' \<mapsto> 2] = SceneUpdate ''s'' [''sceneState'' \<mapsto> (2::nat)]
              \<or> SceneUpdate ''s'' [''sceneState'' \<mapsto> 2] = PhotosUpdate ''s'' (0::nat)
              \<or> SceneUpdate ''s'' [''sceneState'' \<mapsto> 2] = ControlOffer ''s'' ''A''"
    by simp
  have h2: "map_get [(''s'', ?s)] ''s'' = None \<or>
         (\<exists>session. map_get [(''s'', ?s)] ''s'' = Some session \<and>
                    controllerId session \<noteq> Some ''B'')"
    by simp
  from unauthorized_or_unknown_dropped [OF h1 h2] show ?thesis .
qed

text \<open>
  C5: an authorized \<^verbatim>\<open>scene:update\<close> leaves every field of the session but \<^verbatim>\<open>sceneState\<close> as it
  was, and the new blob has, for every field of the delta, the delta's value, and for every
  other field the value of the previous blob (no value when the previous blob was \<^verbatim>\<open>null\<close> or
  lacked the field). An authorized \<^verbatim>\<open>photos:update\<close> sets the field \<^verbatim>\<open>photos\<close> of the blob and
  leaves every other field of the blob and of the session as it was.
\<close>

theorem scene_update_shallow_merge:
  assumes "map_get sessions sessionId = Some session"
    and "controllerId session = Some socketId"
  shows "(\<exists>b. map_get (fst (handle now socketId (SceneUpdate sessionId delta) sessions)) sessionId
              = Some (session\<lparr>sceneState := Some b\<rparr>) \<and>
            (\<forall>k v. delta k = Some v \<longrightarrow> b k = Some v) \<and>
            (\<forall>k. delta k = None \<longrightarrow> b k = blob_or_empty (sceneState session) k)) \<and>
         (\<exists>b. map_get (fst (handle now socketId (PhotosUpdate sessionId photos) sessions)) sessionId
              = Some (session\<lparr>sceneState := Some b\<rparr>) \<and>
            b ''photos'' = Some photos \<and>
            (\<forall>k. k \<noteq> ''photos'' \<longrightarrow> b k = blob_or_empty (sceneState session) k))"
proof (intro conjI)
  let ?old = "blob_or_empty (sceneState session)"
  show "\<exists>b. map_get (fst (handle now socketId (SceneUpdate sessionId delta) sessions)) sessionId
              = Some (session\<lparr>sceneState := Some b\<rparr>) \<and>
            (\<forall>k v. delta k = Some v \<longrightarrow> b k = Some v) \<and>
            (\<forall>k. delta k = None \<longrightarrow> b k = blob_or_empty (sceneState session) k)"
    using assms
    by (intro exI [of _ "spread ?old delta"])
       (simp add: on_scene_update_def map_get_set_same spread_def)
  show "\<exists>b. map_get (fst (handle now socketId (PhotosUpdate sessionId photos) sessions)) sessionId
              = Some (session\<lparr>sceneState := Some b\<rparr>) \<and>
            b ''photos'' = Some photos \<and>
            (\<forall>k. k \<noteq> ''photos'' \<longrightarrow> b k = blob_or_empty (sceneState session) k)"
    using assms
    by (intro exI [of _ "spread ?old [''photos'' \<mapsto> photos]"])
       (simp add: on_photos_update_def map_get_set_same spread_def)
qed

theorem scene_update_shallow_merge_witness:
  "(\<exists>b. map_get (fst (handle 9 ''A'' (SceneUpdate ''s'' [''sceneState'' \<mapsto> 3])
                 [(''s'', \<lparr>users = [(''A'', \<lparr>id' = ''A'', name = ''a''\<rparr>)],
                           controllerId = Some ''A'',
                           sceneState = Some [''sceneState'' \<mapsto> 1, ''rotationSpeed'' \<mapsto> (2::nat)],
                           createdAt = 0\<rparr>)])) ''s''
          = Some (\<lparr>users = [(''A'', \<lparr>id' = ''A'', name = ''a''\<rparr>)],
                    controllerId = Some ''A'',
                    sceneState = Some b, createdAt = 0\<rparr>) \<and>
        b ''sceneState'' = Some 3 \<and> b ''rotationSpeed'' = Some 2 \<and> b ''photos'' = None)"
proof -
  let ?s = "\<lparr>users = [(''A'', \<lparr>id' = ''A'', name = ''a''\<rparr>)], controllerId = Some ''A'',
             sceneState = Some [''sceneState'' \<mapsto> 1, ''rotationSpeed'' \<mapsto> (2::nat)],
             createdAt = 0\<rparr>"
  let ?d = "[''sceneState'' \<mapsto> (3::nat)]"
  have h1: "map_get [(''s'', ?s)] ''s'' = Some ?s" by simp
  have h2: "controllerId ?s = Some ''A''" by simp
  from scene_update_shallow_merge [OF h1 h2, of 9 ?d]
  obtain b where b: "map_get (fst (handle 9 ''A'' (SceneUpdate ''s'' ?d) [(''s'', ?s)])) ''s''
                       = Some (?s\<lparr>sceneState := Some b\<rparr>)"
    and d: "\<forall>k v. ?d k = Some v \<longrightarrow> b k = Some v"
    and o: "\<forall>k. ?d k = None \<longrightarrow> b k = blob_or_empty (sceneState ?s) k"
    by blast
  from d have "b ''sceneState'' = Some 3" by simp
  moreover from o have "b ''rotationSpeed'' = Some 2" by (simp add: blob_or_empty_def)
  moreover from o have "b ''photos'' = None" by (simp add: blob_or_empty_def)
  ultimately show ?thesis using b by (intro exI [of _ b]) simp
qed

text \<open>
  C6: \<^verbatim>\<open>session:join\<close> for a session id that is not in the registry appends a fresh session
  whose only user is the caller, who is its controller, with a \<^verbatim>\<open>null\<close> scene blob; for a
  session in the registry it stores the caller in \<^verbatim>\<open>users\<close> and makes the caller the
  controller when \<^verbatim>\<open>controllerId\<close> is \<^verbatim>\<open>null\<close>. In both cases the caller is sent
  \<^verbatim>\<open>session:joined\<close> with its id, the list of all users, the controller id and the scene blob
  of the session after the join, and the room except the caller is sent
  \<^verbatim>\<open>session:user-joined\<close> with the caller's id and name.
\<close>

theorem session_join_effect:
  "(map_get sessions sessionId = None \<longrightarrow>
      handle now socketId (SessionJoin sessionId nm) sessions =
        (sessions @ [(sessionId, \<lparr>users = [(socketId, \<lparr>id' = socketId, name = nm\<rparr>)],
                                  controllerId = Some socketId, sceneState = None,
                                  createdAt = now\<rparr>)],
         [Emit ToSender (SessionJoined sessionId socketId [\<lparr>id' = socketId, name = nm\<rparr>]
                           (Some socketId) None),
          Emit (ToRoomExceptSender sessionId)
            (SessionUserJoined \<lparr>id' = socketId, name = nm\<rparr>)])) \<and>
   (\<forall>session. map_get sessions sessionId = Some session \<longrightarrow>
      (\<exists>session'.
         map_get (fst (handle now socketId (SessionJoin sessionId nm) sessions)) sessionId
           = Some session' \<and>
         users session' = map_set (users session) socketId \<lparr>id' = socketId, name = nm\<rparr> \<and>
         map_get (users session') socketId = Some \<lparr>id' = socketId, name = nm\<rparr> \<and>
         (controllerId session = None \<longrightarrow> controllerId session' = Some socketId) \<and>
         sceneState session' = sceneState session \<and>
         snd (handle now socketId (SessionJoin sessionId nm) sessions) =
           [Emit ToSender (SessionJoined sessionId socketId (map snd (users session'))
                             (controllerId session') (sceneState session')),
            Emit (ToRoomExceptSender sessionId)
              (SessionUserJoined \<lparr>id' = socketId, name = nm\<rparr>)]))"
proof (intro conjI impI allI)
  assume none: "map_get sessions sessionId = None"
  then have nh: "\<not> map_has sessions sessionId" by (simp add: map_has_get)
  then show "handle now socketId (SessionJoin sessionId nm) sessions =
        (sessions @ [(sessionId, \<lparr>users = [(socketId, \<lparr>id' = socketId, name = nm\<rparr>)],
                                  controllerId = Some socketId, sceneState = None,
                                  createdAt = now\<rparr>)],
         [Emit ToSender (SessionJoined sessionId socketId [\<lparr>id' = socketId, name = nm\<rparr>]
                           (Some socketId) None),
          Emit (ToRoomExceptSender sessionId)
            (SessionUserJoined \<lparr>id' = socketId, name = nm\<rparr>)])"
    by (simp add: on_session_join_def getSession_fresh [OF none] map_set_append_fresh
        new_session_def getUsersPayload_eq)
next
  fix session
  assume some: "map_get sessions sessionId = Some session"
  then have h: "map_has sessions sessionId" by (simp add: map_has_get)
  show "\<exists>session'.
         map_get (fst (handle now socketId (SessionJoin sessionId nm) sessions)) sessionId
           = Some session' \<and>
         users session' = map_set (users session) socketId \<lparr>id' = socketId, name = nm\<rparr> \<and>
         map_get (users session') socketId = Some \<lparr>id' = socketId, name = nm\<rparr> \<and>
         (controllerId session = None \<longrightarrow> controllerId session' = Some socketId) \<and>
         sceneState session' = sceneState session \<and>
         snd (handle now socketId (SessionJoin sessionId nm) sessions) =
           [Emit ToSender (SessionJoined sessionId socketId (map snd (users session'))
                             (controllerId session') (sceneState session')),
            Emit (ToRoomExceptSender sessionId)
              (SessionUserJoined \<lparr>id' = socketId, name = nm\<rparr>)]"
    by (simp add: on_session_join_def getSession_present [OF some] Let_def map_get_set_same
        getUsersPayload_eq)
qed

theorem session_join_effect_witness:
  "handle 4 ''A'' (SessionJoin ''s'' ''a'') ([] :: nat registry) =
     ([(''s'', \<lparr>users = [(''A'', \<lparr>id' = ''A'', name = ''a''\<rparr>)], controllerId = Some ''A'',
               sceneState = None, createdAt = 4\<rparr>)],
      [Emit ToSender (SessionJoined ''s'' ''A'' [\<lparr>id' = ''A'', name = ''a''\<rparr>] (Some ''A'') None),
       Emit (ToRoomExceptSender ''s'') (SessionUserJoined \<lparr>id' = ''A'', name = ''a''\<rparr>)])"
proof -
  have h: "map_get ([] :: nat registry) ''s'' = None" by simp
  from session_join_effect [of "[] :: nat registry" "''s''" 4 "''A''" "''a''"] h
  show ?thesis by simp
qed

text \<open>
  C8: \<^verbatim>\<open>webrtc:offer\<close>, \<^verbatim>\<open>webrtc:answer\<close> and \<^verbatim>\<open>webrtc:ice\<close> leave the registry as it is and
  emit one event to the room named by \<^verbatim>\<open>to\<close>, carrying the sender's id as \<^verbatim>\<open>from\<close> and the
  offer, answer or candidate of the message as it came.
\<close>

theorem webrtc_relay_verbatim:
  "handle now socketId (WebrtcOffer to payload) sessions =
     (sessions, [Emit (ToRoom to) (WebrtcOfferEv socketId payload)]) \<and>
   handle now socketId (WebrtcAnswer to payload) sessions =
     (sessions, [Emit (ToRoom to) (WebrtcAnswerEv socketId payload)]) \<and>
   handle now socketId (WebrtcIce to payload) sessions =
     (sessions, [Emit (ToRoom to) (WebrtcIceEv socketId payload)])"
  by (simp add: on_webrtc_offer_def on_webrtc_answer_def on_webrtc_ice_def)

theorem webrtc_relay_verbatim_witness:
  "handle 1 ''A'' (WebrtcOffer ''B'' (42::nat)) [] = ([], [Emit (ToRoom ''B'') (WebrtcOfferEv ''A'' 42)])"
  using webrtc_relay_verbatim [of 1 "''A''" "''B''" "42::nat" "[]"] by simp

text \<open>
  C10: when a socket that is already a user of a session, whose \<^verbatim>\<open>controllerId\<close> is a
  non-empty id, joins it again, the keys of \<^verbatim>\<open>users\<close> and their order stay as they were, the
  socket's entry holds the new name and every other entry is untouched, \<^verbatim>\<open>controllerId\<close>
  stays as it was, the joiner is sent the full \<^verbatim>\<open>session:joined\<close> reply, and a repetition of
  the same join leaves the registry as the first one left it.
\<close>

theorem rejoin_idempotent:
  assumes "map_get sessions sessionId = Some session"
    and "map_has (users session) socketId"
    and "controllerId session = Some c" and "c \<noteq> []"
  shows "handle now socketId (SessionJoin sessionId nm) sessions =
           (map_set sessions sessionId
              (session\<lparr>users := map_set (users session) socketId \<lparr>id' = socketId, name = nm\<rparr>\<rparr>),
            [Emit ToSender
               (SessionJoined sessionId socketId
                  (map snd (map_set (users session) socketId \<lparr>id' = socketId, name = nm\<rparr>))
                  (Some c) (sceneState session)),
             Emit (ToRoomExceptSender sessionId)
               (SessionUserJoined \<lparr>id' = socketId, name = nm\<rparr>)]) \<and>
         map fst (map_set (users session) socketId \<lparr>id' = socketId, name = nm\<rparr>)
           = map fst (users session) \<and>
         (\<forall>k. map_get (map_set (users session) socketId \<lparr>id' = socketId, name = nm\<rparr>) k =
                (if k = socketId then Some \<lparr>id' = socketId, name = nm\<rparr>
                 else map_get (users session) k)) \<and>
         fst (handle now' socketId (SessionJoin sessionId nm)
                (fst (handle now socketId (SessionJoin sessionId nm) sessions)))
           = fst (handle now socketId (SessionJoin sessionId nm) sessions)"
proof -
  let ?u = "\<lparr>id' = socketId, name = nm\<rparr>"
  let ?s' = "session\<lparr>users := map_set (users session) socketId ?u\<rparr>"
  have first: "handle now socketId (SessionJoin sessionId nm) sessions =
           (map_set sessions sessionId ?s',
            [Emit ToSender
               (SessionJoined sessionId socketId (map snd (map_set (users session) socketId ?u))
                  (Some c) (sceneState session)),
             Emit (ToRoomExceptSender sessionId) (SessionUserJoined ?u)])"
    using assms(3,4)
    by (simp add: on_session_join_def getSession_present [OF assms(1)] Let_def
        getUsersPayload_eq)
  have get': "map_get (map_set sessions sessionId ?s') sessionId = Some ?s'"
    by (rule map_get_set_same)
  have second: "fst (handle now' socketId (SessionJoin sessionId nm)
                  (map_set sessions sessionId ?s')) = map_set sessions sessionId ?s'"
    using assms(3,4)
    by (simp add: on_session_join_def getSession_present [OF get'] Let_def
        map_set_idem)
  show ?thesis
    using assms(2)
    by (simp add: first second map_set_keys_present map_get_set_present_other
        del: handle.simps)
qed

theorem rejoin_idempotent_witness:
  "handle 8 ''B'' (SessionJoin ''s'' ''bob'') [(''s'', \<lparr>users = [(''A'', \<lparr>id' = ''A'', name = ''a''\<rparr>), (''B'', \<lparr>id' = ''B'', name = ''b''\<rparr>)],
        controllerId = Some ''A'', sceneState = (None :: nat blob option), createdAt = 0\<rparr>)] =
     ([(''s'', \<lparr>users = [(''A'', \<lparr>id' = ''A'', name = ''a''\<rparr>), (''B'', \<lparr>id' = ''B'', name = ''bob''\<rparr>)],
               controllerId = Some ''A'', sceneState = None, createdAt = 0\<rparr>)],
      [Emit ToSender (SessionJoined ''s'' ''B''
                        [\<lparr>id' = ''A'', name = ''a''\<rparr>, \<lparr>id' = ''B'', name = ''bob''\<rparr>]
                        (Some ''A'') None),
       Emit (ToRoomExceptSender ''s'') (SessionUserJoined \<lparr>id' = ''B'', name = ''bob''\<rparr>)])"
proof -
  let ?s = "\<lparr>users = [(''A'', \<lparr>id' = ''A'', name = ''a''\<rparr>), (''B'', \<lparr>id' = ''B'', name = ''b''\<rparr>)],
        controllerId = Some ''A'', sceneState = (None :: nat blob option), createdAt = 0\<rparr>"
  have h1: "map_get [(''s'', ?s)] ''s'' = Some ?s" by simp
  have h2: "map_has (users ?s) ''B''" by simp
  have h3: "controllerId ?s = Some ''A''" by simp
  have h4: "''A'' \<noteq> []" by simp
  from rejoin_idempotent [OF h1 h2 h3 h4, of 8 "''bob''"]
  have "handle 8 ''B'' (SessionJoin ''s'' ''bob'') [(''s'', ?s)] =
           (map_set [(''s'', ?s)] ''s''
              (?s\<lparr>users := map_set (users ?s) ''B'' \<lparr>id' = ''B'', name = ''bob''\<rparr>\<rparr>),
            [Emit ToSender
               (SessionJoined ''s'' ''B''
                  (map snd (map_set (users ?s) ''B'' \<lparr>id' = ''B'', name = ''bob''\<rparr>))
                  (Some ''A'') (sceneState ?s)),
             Emit (ToRoomExceptSender ''s'')
               (SessionUserJoined \<lparr>id' = ''B'', name = ''bob''\<rparr>)])"
    by blast
  then show ?thesis by simp
qed

section \<open>The claims about the client\<close>

text \<open>
  C7: on a controller with a socket, a burst of local changes of the scene state or the
  rotation speed, each less than 150 ms after the one before it, emits nothing while it
  lasts and leaves exactly one pending timer, due 150 ms after the last change, whose
  callback carries the pair of values of the last change. Nothing is emitted before that
  time, and once that time has come exactly one \<^verbatim>\<open>scene:update\<close> with the last pair has
  been emitted and no timer is left. The outbox is compared with the one at the first
  change of the burst.
\<close>

theorem scene_update_debounced:
  assumes "tracked c" and "isController c" and "socketRef c" and "clock c \<le> t1"
    and "paced t1 es"
    and "changing (clientSceneState c, rotationSpeed c) ((t1, s1, r1) # es)"
    and "last ((t1, s1, r1) # es) = (tN, sN, rN)"
  shows "timers (changes sid ((t1, s1, r1) # es) c) =
           [(the (sceneUpdateTimeoutRef (changes sid ((t1, s1, r1) # es) c)), tN + 150,
             SceneUpdateOut sid sN rN)] \<and>
         outbox (changes sid ((t1, s1, r1) # es) c) = outbox (advance t1 c) \<and>
         (\<forall>T. T < tN + 150 \<longrightarrow>
            outbox (advance T (changes sid ((t1, s1, r1) # es) c)) = outbox (advance t1 c)) \<and>
         (\<forall>T. tN + 150 \<le> T \<longrightarrow>
            outbox (advance T (changes sid ((t1, s1, r1) # es) c)) =
              outbox (advance t1 c) @ [SceneUpdateOut sid sN rN] \<and>
            timers (advance T (changes sid ((t1, s1, r1) # es) c)) = [])"
proof -
  let ?c1 = "local_change sid s1 r1 (advance t1 c)"
  let ?c' = "changes sid es ?c1"
  from assms(6) have ch1: "(s1, r1) \<noteq> (clientSceneState c, rotationSpeed c)"
    and ch: "changing (s1, r1) es" by simp_all
  have a1: "armed sid t1 s1 r1 ?c1" and o1: "outbox ?c1 = outbox (advance t1 c)"
    using change_arms [OF assms(1-4) ch1, of sid] by simp_all
  from changes_armed [OF a1 assms(5) ch assms(7)]
  have aN: "armed sid tN sN rN ?c'" and oN: "outbox ?c' = outbox ?c1" by simp_all
  have eq: "changes sid ((t1, s1, r1) # es) c = ?c'" by simp
  from aN have "timers ?c' = [(the (sceneUpdateTimeoutRef ?c'), tN + 150, SceneUpdateOut sid sN rN)]"
    by (auto simp: armed_def split: option.splits)
  moreover have "outbox ?c' = outbox (advance t1 c)" using oN o1 by simp
  moreover have "\<forall>T. T < tN + 150 \<longrightarrow> outbox (advance T ?c') = outbox (advance t1 c)"
    using armed_early [OF aN] oN o1 by simp
  moreover have "\<forall>T. tN + 150 \<le> T \<longrightarrow>
            outbox (advance T ?c') = outbox (advance t1 c) @ [SceneUpdateOut sid sN rN] \<and>
            timers (advance T ?c') = []"
    using armed_fires [OF aN] oN o1 by simp
  ultimately show ?thesis unfolding eq by blast
qed

theorem scene_update_debounced_witness:
  "outbox (advance 400 (changes ''s'' [(10, CAROUSEL, 1), (100, CAROUSEL, 2), (240, PHOTO, 2)]
     (\<lparr>isController = True, isControllerRef = True, socketRef = True,
       clientSceneState = FORMED, rotationSpeed = (0::int), sceneUpdateTimeoutRef = None,
       effectCleanup = False, canvasRef = None, localStreamRef = None,
       pendingViewersRef = [], peerConnectionsRef = [], timers = [], nextTimerId = 1,
       clock = 0, outbox = ([] :: (int, string) outbound list)\<rparr>))) = [SceneUpdateOut ''s'' PHOTO 2] \<and>
   outbox (advance 389 (changes ''s'' [(10, CAROUSEL, 1), (100, CAROUSEL, 2), (240, PHOTO, 2)]
     (\<lparr>isController = True, isControllerRef = True, socketRef = True,
       clientSceneState = FORMED, rotationSpeed = (0::int), sceneUpdateTimeoutRef = None,
       effectCleanup = False, canvasRef = None, localStreamRef = None,
       pendingViewersRef = [], peerConnectionsRef = [], timers = [], nextTimerId = 1,
       clock = 0, outbox = ([] :: (int, string) outbound list)\<rparr>))) = []"
proof -
  let ?c = "\<lparr>isController = True, isControllerRef = True, socketRef = True,
       clientSceneState = FORMED, rotationSpeed = (0::int), sceneUpdateTimeoutRef = None,
       effectCleanup = False, canvasRef = None, localStreamRef = None,
       pendingViewersRef = [], peerConnectionsRef = [], timers = [], nextTimerId = 1,
       clock = 0, outbox = ([] :: (int, string) outbound list)\<rparr>"
  let ?es = "[(100, CAROUSEL, 2), (240, PHOTO, 2)] :: (nat \<times> scene_mode \<times> int) list"
  have h1: "tracked ?c" by (simp add: tracked_def)
  have h2: "isController ?c" by simp
  have h3: "socketRef ?c" by simp
  have h4: "clock ?c \<le> 10" by simp
  have h5: "paced 10 ?es" by simp
  have h6: "changing (clientSceneState ?c, rotationSpeed ?c) ((10, CAROUSEL, 1) # ?es)" by simp
  have h7: "last ((10, CAROUSEL, 1) # ?es) = (240, PHOTO, 2)" by simp
  have o: "outbox (advance 10 ?c) = []" by (simp add: advance_def)
  from scene_update_debounced [OF h1 h2 h3 h4 h5 h6 h7, of "''s''"]
  have "(\<forall>T. T < 240 + 150 \<longrightarrow>
            outbox (advance T (changes ''s'' ((10, CAROUSEL, 1) # ?es) ?c)) = outbox (advance 10 ?c))"
    and "(\<forall>T. 240 + 150 \<le> T \<longrightarrow>
            outbox (advance T (changes ''s'' ((10, CAROUSEL, 1) # ?es) ?c)) =
              outbox (advance 10 ?c) @ [SceneUpdateOut ''s'' PHOTO 2] \<and>
            timers (advance T (changes ''s'' ((10, CAROUSEL, 1) # ?es) ?c)) = [])"
    by blast+
  then have "outbox (advance 389 (changes ''s'' ((10, CAROUSEL, 1) # ?es) ?c)) = outbox (advance 10 ?c)"
    and "outbox (advance 400 (changes ''s'' ((10, CAROUSEL, 1) # ?es) ?c)) =
           outbox (advance 10 ?c) @ [SceneUpdateOut ''s'' PHOTO 2]"
    by simp_all
  then show ?thesis unfolding o by simp
qed

text \<open>
  C9: on a controller client whose canvas is not there yet, so that the capture cannot
  start, every \<^verbatim>\<open>webrtc:viewer-join\<close> puts the viewer id into the pending set and emits
  nothing; the set holds the ids in the order of their first arrival, each once. When the
  canvas becomes ready, with the socket in place and every offer negotiation succeeding,
  the capture starts, the set is emptied, and one \<^verbatim>\<open>webrtc:offer\<close> per queued id is emitted,
  in the order of the queue and to no other id.
\<close>

theorem pending_viewers_drained:
  assumes "isControllerRef c" and "canvasRef c = None" and "socketRef c"
    and "localStreamRef c = None" and "pendingViewersRef c = []"
    and "\<forall>v. createOffer v = Some (f v)"
  shows "pendingViewersRef (viewer_joins createOffer vs c) = rev (remdups (rev vs)) \<and>
         outbox (viewer_joins createOffer vs c) = outbox c \<and>
         outbox (onCanvasReady createOffer cv (viewer_joins createOffer vs c)) =
           outbox c @ map (\<lambda>v. WebrtcOfferOut v (f v)) (rev (remdups (rev vs))) \<and>
         pendingViewersRef (onCanvasReady createOffer cv (viewer_joins createOffer vs c)) = [] \<and>
         distinct (rev (remdups (rev vs))) \<and> set (rev (remdups (rev vs))) = set vs"
proof -
  let ?c1 = "viewer_joins createOffer vs c"
  have c1: "?c1 = c\<lparr>pendingViewersRef := rev (remdups (rev vs))\<rparr>"
    using viewer_joins_queued [OF assms(1,2), of createOffer vs]
      foldl_set_add_first_arrivals [of "[]" vs] assms(5)
    by simp
  have f1: "isControllerRef ?c1" "socketRef ?c1" "localStreamRef ?c1 = None"
    using assms(1,3,4) by (simp_all add: c1)
  from canvas_ready_flushes [OF f1 assms(6), of cv]
  show ?thesis by (simp add: c1)
qed

theorem pending_viewers_drained_witness:
  "outbox (onCanvasReady (\<lambda>v. Some (''offer-'' @ v)) Canvas
     (viewer_joins (\<lambda>v. Some (''offer-'' @ v)) [''V1'', ''V2'', ''V1'']
        (\<lparr>isController = True, isControllerRef = True, socketRef = True,
       clientSceneState = FORMED, rotationSpeed = (0::int), sceneUpdateTimeoutRef = None,
       effectCleanup = False, canvasRef = None, localStreamRef = None,
       pendingViewersRef = [], peerConnectionsRef = [], timers = [], nextTimerId = 1,
       clock = 0, outbox = ([] :: (int, string) outbound list)\<rparr>))) =
     [WebrtcOfferOut ''V1'' ''offer-V1'', WebrtcOfferOut ''V2'' ''offer-V2'']"
proof -
  let ?c = "\<lparr>isController = True, isControllerRef = True, socketRef = True,
       clientSceneState = FORMED, rotationSpeed = (0::int), sceneUpdateTimeoutRef = None,
       effectCleanup = False, canvasRef = None, localStreamRef = None,
       pendingViewersRef = [], peerConnectionsRef = [], timers = [], nextTimerId = 1,
       clock = 0, outbox = ([] :: (int, string) outbound list)\<rparr>"
  let ?f = "\<lambda>v. ''offer-'' @ v"
  have h1: "isControllerRef ?c" by simp
  have h2: "canvasRef ?c = None" by simp
  have h3: "socketRef ?c" by simp
  have h4: "localStreamRef ?c = None" by simp
  have h5: "pendingViewersRef ?c = []" by simp
  have h6: "\<forall>v. (\<lambda>v. Some (?f v)) v = Some (?f v)" by simp
  from pending_viewers_drained [OF h1 h2 h3 h4 h5 h6, of "[''V1'', ''V2'', ''V1'']" Canvas]
  have "outbox (onCanvasReady (\<lambda>v. Some (?f v)) Canvas
          (viewer_joins (\<lambda>v. Some (?f v)) [''V1'', ''V2'', ''V1''] ?c)) =
        outbox ?c @ map (\<lambda>v. WebrtcOfferOut v (?f v)) (rev (remdups (rev [''V1'', ''V2'', ''V1''])))"
    by blast
  then show ?thesis by simp
qed

end
